theory Spec2Isabelle
  imports Complex_Main
begin

section \<open>Numbers and series\<close>

text \<open>
  The program computes on binary64 floats held in pandas Series and DataFrames.
  A finite float is modelled by the real number it denotes, arithmetic on finite
  values is exact, and the special values the code produces or tests for are
  explicit constructors. Rounding, overflow to infinity and the sign of zero are
  outside this model; a numpy division by zero gives the IEEE result for a
  positive zero.
\<close>

datatype fl = Fin real | PInf | NInf | NaN

fun fl_neg :: "fl \<Rightarrow> fl" where
  "fl_neg (Fin x) = Fin (- x)"
| "fl_neg PInf = NInf"
| "fl_neg NInf = PInf"
| "fl_neg NaN = NaN"

fun fl_add :: "fl \<Rightarrow> fl \<Rightarrow> fl" where
  "fl_add NaN b = NaN"
| "fl_add a NaN = NaN"
| "fl_add (Fin x) (Fin y) = Fin (x + y)"
| "fl_add PInf NInf = NaN"
| "fl_add NInf PInf = NaN"
| "fl_add PInf b = PInf"
| "fl_add a PInf = PInf"
| "fl_add NInf b = NInf"
| "fl_add a NInf = NInf"

definition fl_sub :: "fl \<Rightarrow> fl \<Rightarrow> fl" where
  "fl_sub a b = fl_add a (fl_neg b)"

definition signed_inf :: "bool \<Rightarrow> fl" where
  "signed_inf pos = (if pos then PInf else NInf)"

fun fl_mul :: "fl \<Rightarrow> fl \<Rightarrow> fl" where
  "fl_mul NaN b = NaN"
| "fl_mul a NaN = NaN"
| "fl_mul (Fin x) (Fin y) = Fin (x * y)"
| "fl_mul (Fin x) PInf = (if x = 0 then NaN else signed_inf (0 < x))"
| "fl_mul (Fin x) NInf = (if x = 0 then NaN else signed_inf (x < 0))"
| "fl_mul PInf (Fin y) = (if y = 0 then NaN else signed_inf (0 < y))"
| "fl_mul NInf (Fin y) = (if y = 0 then NaN else signed_inf (y < 0))"
| "fl_mul PInf PInf = PInf"
| "fl_mul NInf NInf = PInf"
| "fl_mul PInf NInf = NInf"
| "fl_mul NInf PInf = NInf"

text \<open>numpy's true division: no exception, a zero divisor gives an infinity or NaN.\<close>

fun fl_div :: "fl \<Rightarrow> fl \<Rightarrow> fl" where
  "fl_div NaN b = NaN"
| "fl_div a NaN = NaN"
| "fl_div (Fin x) (Fin y) =
     (if y = 0 then (if x = 0 then NaN else signed_inf (0 < x)) else Fin (x / y))"
| "fl_div (Fin x) PInf = Fin 0"
| "fl_div (Fin x) NInf = Fin 0"
| "fl_div PInf (Fin y) = signed_inf (0 \<le> y)"
| "fl_div NInf (Fin y) = signed_inf (y < 0)"
| "fl_div PInf PInf = NaN"
| "fl_div PInf NInf = NaN"
| "fl_div NInf PInf = NaN"
| "fl_div NInf NInf = NaN"

text \<open>Comparisons: every comparison with NaN is false.\<close>

definition fl_eq :: "fl \<Rightarrow> fl \<Rightarrow> bool" where
  "fl_eq a b = (a \<noteq> NaN \<and> a = b)"

fun fl_less :: "fl \<Rightarrow> fl \<Rightarrow> bool" where
  "fl_less NaN b = False"
| "fl_less a NaN = False"
| "fl_less (Fin x) (Fin y) = (x < y)"
| "fl_less NInf NInf = False"
| "fl_less NInf b = True"
| "fl_less a NInf = False"
| "fl_less PInf b = False"
| "fl_less a PInf = True"

definition fl_le :: "fl \<Rightarrow> fl \<Rightarrow> bool" where
  "fl_le a b = (fl_less a b \<or> fl_eq a b)"

text \<open>\<^verbatim>\<open>np.sqrt\<close>: NaN (with a warning) below zero.\<close>

definition np_sqrt :: "real \<Rightarrow> fl" where
  "np_sqrt x = (if x < 0 then NaN else Fin (sqrt x))"


text \<open>A Series cell is a finite observation or missing (pandas stores NaN).\<close>

type_synonym series = "real option list"

datatype py_error = ZeroDivisionError | IndexError | ValueError string | LinAlgError

text \<open>\<^verbatim>\<open>s.dropna()\<close>, and the observations that are left.\<close>

definition dropna :: "series \<Rightarrow> series" where
  "dropna s = filter (\<lambda>x. x \<noteq> None) s"

definition obs :: "series \<Rightarrow> real list" where
  "obs s = map the (dropna s)"

text \<open>Series arithmetic with a scalar keeps missing cells missing.\<close>

definition s_add :: "real \<Rightarrow> series \<Rightarrow> series" where
  "s_add c s = map (map_option (\<lambda>x. c + x)) s"


text \<open>
  pandas reductions skip missing cells (\<^verbatim>\<open>skipna=True\<close>): the product of no
  observation is 1, the mean, the minimum and the standard deviation of none are NaN.
\<close>

definition mean :: "real list \<Rightarrow> real" where
  "mean vs = sum_list vs / real (length vs)"

definition sq_dev :: "real list \<Rightarrow> real" where
  "sq_dev vs = sum_list (map (\<lambda>x. (x - mean vs)\<^sup>2) vs)"

definition pd_prod :: "series \<Rightarrow> real" where
  "pd_prod s = prod_list (obs s)"

definition pd_mean :: "series \<Rightarrow> fl" where
  "pd_mean s = (if obs s = [] then NaN else Fin (mean (obs s)))"



fun cumprod_from :: "real \<Rightarrow> series \<Rightarrow> series" where
  "cumprod_from acc [] = []"
| "cumprod_from acc (None # xs) = None # cumprod_from acc xs"
| "cumprod_from acc (Some x # xs) = Some (acc * x) # cumprod_from (acc * x) xs"

text \<open>The running product of a column that has no missing cell.\<close>

fun running :: "real \<Rightarrow> real list \<Rightarrow> real list" where
  "running acc [] = []"
| "running acc (x # xs) = acc * x # running (acc * x) xs"

definition cumprod :: "series \<Rightarrow> series" where
  "cumprod s = cumprod_from 1 s"



section \<open>metrics.py\<close>











section \<open>var.py\<close>

text \<open>
  The inverse normal CDF. The coefficient lists \<^verbatim>\<open>a\<close>, \<^verbatim>\<open>b\<close>, \<^verbatim>\<open>c\<close>, \<^verbatim>\<open>d\<close> of the
  source are written into the four Horner polynomials.
  \<^verbatim>\<open>
  def _norm_ppf(p: float) -> float:
      if p <= 0.0: return -np.inf
      if p >= 1.0: return  np.inf
      ...
      plow, phigh = 0.02425, 1 - 0.02425
      if p < plow:
          q = np.sqrt(-2*np.log(p))
          return (((((c[0]*q + c[1])*q + c[2])*q + c[3])*q + c[4])*q + c[5]) / \
                 ((((d[0]*q + d[1])*q + d[2])*q + d[3])*q + 1)
      if p > phigh:
          q = np.sqrt(-2*np.log(1 - p))
          return -(((((c[0]*q + c[1])*q + c[2])*q + c[3])*q + c[4])*q + c[5]) / \
                   ((((d[0]*q + d[1])*q + d[2])*q + d[3])*q + 1)
      q = p - 0.5
      r = q*q
      return (((((a[0]*r + a[1])*r + a[2])*r + a[3])*r + a[4])*r + a[5]) * q / \
             (((((b[0]*r + b[1])*r + b[2])*r + b[3])*r + b[4])*r + 1)
  \<close>
  In the tails \<^verbatim>\<open>q\<close> is a numpy float64, whose division never raises; in the
  central region the operands are Python floats, whose division raises
  ZeroDivisionError on a zero divisor.
\<close>

definition plow :: real where
  "plow = 0.02425"

definition phigh :: real where
  "phigh = 1 - 0.02425"

definition central_num :: "real \<Rightarrow> real" where
  "central_num r =
     ((((- 39.69683028665376 * r + 220.9460984245205) * r + - 275.9285104469687) * r
        + 138.3577518672690) * r + - 30.66479806614716) * r + 2.506628277459239"

definition central_den :: "real \<Rightarrow> real" where
  "central_den r =
     ((((- 54.47609879822406 * r + 161.5858368580409) * r + - 155.6989798598866) * r
        + 66.80131188771972) * r + - 13.28068155288572) * r + 1"

definition tail_num :: "real \<Rightarrow> real" where
  "tail_num q =
     ((((- 0.007784894002430293 * q + - 0.3223964580411365) * q + - 2.400758277161838) * q
        + - 2.549732539343734) * q + 4.374664141464968) * q + 2.938163982698783"

definition tail_den :: "real \<Rightarrow> real" where
  "tail_den q =
     (((0.007784695709041462 * q + 0.3224671290700398) * q + 2.445134137142996) * q
        + 3.754408661907416) * q + 1"

definition norm_ppf :: "real \<Rightarrow> py_error + fl" where
  "norm_ppf p =
     (if p \<le> 0 then Inr NInf
      else if 1 \<le> p then Inr PInf
      else if p < plow then
        (let q = sqrt (- 2 * ln p)
         in Inr (fl_div (Fin (tail_num q)) (Fin (tail_den q))))
      else if phigh < p then
        (let q = sqrt (- 2 * ln (1 - p))
         in Inr (fl_div (Fin (- tail_num q)) (Fin (tail_den q))))
      else
        (let q = p - 0.5; r = q * q
         in if central_den r = 0 then Inl ZeroDivisionError
            else Inr (Fin (central_num r * q / central_den r))))"

text \<open>
  \<^verbatim>\<open>np.quantile(a, q)\<close> with the default linear interpolation between the order
  statistics at the virtual index \<^verbatim>\<open>(n - 1) * q\<close>. numpy raises ValueError for a
  level outside [0, 1] and (from version 1.22, on which the pandas release that
  knows the \<^verbatim>\<open>ME\<close> alias depends) IndexError for an empty array.
\<close>

definition np_quantile :: "real list \<Rightarrow> real \<Rightarrow> py_error + real" where
  "np_quantile a q =
     (if q < 0 \<or> 1 < q then Inl (ValueError ''Quantiles must be in the range [0, 1]'')
      else if a = [] then Inl IndexError
      else
        let s = sort a;
            n = length a;
            h = real (n - 1) * q;
            lo = nat \<lfloor>h\<rfloor>;
            hi = min (lo + 1) (n - 1)
        in Inr (s ! lo + (s ! hi - s ! lo) * (h - real lo)))"

text \<open>
  \<^verbatim>\<open>
  def var_historical(rets: pd.Series, alpha=0.95):
      r = rets.dropna()
      return np.quantile(r, 1 - alpha)  # negative = loss

  def cvar_historical(rets: pd.Series, alpha=0.95):
      q = var_historical(rets, alpha)
      tail = rets.dropna()[rets.dropna() <= q]
      return tail.mean() if len(tail) else np.nan
  \<close>
\<close>

definition var_historical :: "series \<Rightarrow> real \<Rightarrow> py_error + fl" where
  "var_historical rets alpha =
     (let r = dropna rets
      in case np_quantile (obs r) (1 - alpha) of
           Inl e \<Rightarrow> Inl e
         | Inr v \<Rightarrow> Inr (Fin v))"

definition at_or_below :: "fl \<Rightarrow> real option \<Rightarrow> bool" where
  "at_or_below q x = (case x of None \<Rightarrow> False | Some v \<Rightarrow> fl_le (Fin v) q)"

definition cvar_historical :: "series \<Rightarrow> real \<Rightarrow> py_error + fl" where
  "cvar_historical rets alpha =
     (case var_historical rets alpha of
        Inl e \<Rightarrow> Inl e
      | Inr q \<Rightarrow>
          let tail = filter (at_or_below q) (dropna rets)
          in Inr (if length tail \<noteq> 0 then pd_mean tail else NaN))"




section \<open>Dates, frames and calendars\<close>

text \<open>
  A daily timestamp is a (year, month, day) triple ordered lexicographically. A
  DataFrame is its index and its named columns, every column as long as the index.
  A Series that carries its index is a list of (date, value) pairs.
\<close>

type_synonym date = "nat \<times> nat \<times> nat"

definition date_le :: "date \<Rightarrow> date \<Rightarrow> bool" where
  "date_le a b =
     (case a of (y1, m1, d1) \<Rightarrow> case b of (y2, m2, d2) \<Rightarrow>
        y1 < y2 \<or> (y1 = y2 \<and> (m1 < m2 \<or> (m1 = m2 \<and> d1 \<le> d2))))"

definition leap_year :: "nat \<Rightarrow> bool" where
  "leap_year y = (y mod 4 = 0 \<and> (y mod 100 \<noteq> 0 \<or> y mod 400 = 0))"

definition days_in_month :: "nat \<Rightarrow> nat \<Rightarrow> nat" where
  "days_in_month y m =
     (if m = 2 then (if leap_year y then 29 else 28)
      else if m = 4 \<or> m = 6 \<or> m = 9 \<or> m = 11 then 30
      else 31)"

definition valid_date :: "date \<Rightarrow> bool" where
  "valid_date a =
     (case a of (y, m, d) \<Rightarrow> 1 \<le> m \<and> m \<le> 12 \<and> 1 \<le> d \<and> d \<le> days_in_month y m)"

record frame =
  findex :: "date list"
  fcols :: "(string \<times> series) list"

definition wf_frame :: "frame \<Rightarrow> bool" where
  "wf_frame F =
     (distinct (map fst (fcols F)) \<and>
      list_all (\<lambda>cs. length (snd cs) = length (findex F)) (fcols F) \<and>
      list_all valid_date (findex F))"

definition frame_empty :: "frame \<Rightarrow> bool" where
  "frame_empty F = (findex F = [] \<or> fcols F = [])"

definition column :: "frame \<Rightarrow> string \<Rightarrow> series" where
  "column F c = (case map_of (fcols F) c of None \<Rightarrow> [] | Some s \<Rightarrow> s)"

definition cell :: "series \<Rightarrow> nat \<Rightarrow> real option" where
  "cell s i = (if i < length s then s ! i else None)"

text \<open>
  A resampling frequency cuts time into consecutive numbered periods and labels
  each bin with a date. For the month-end and quarter-end frequencies the label
  is the last calendar day of the period.
\<close>

record calendar =
  period_of :: "date \<Rightarrow> nat"
  period_label :: "nat \<Rightarrow> date"

definition month_period :: "date \<Rightarrow> nat" where
  "month_period a = (case a of (y, m, d) \<Rightarrow> 12 * y + (m - 1))"

definition month_end :: "nat \<Rightarrow> date" where
  "month_end k = (k div 12, k mod 12 + 1, days_in_month (k div 12) (k mod 12 + 1))"

definition quarter_period :: "date \<Rightarrow> nat" where
  "quarter_period a = (case a of (y, m, d) \<Rightarrow> 4 * y + (m - 1) div 3)"

definition quarter_end :: "nat \<Rightarrow> date" where
  "quarter_end k = (k div 4, 3 * (k mod 4) + 3, days_in_month (k div 4) (3 * (k mod 4) + 3))"

definition month_end_calendar :: calendar where
  "month_end_calendar = \<lparr>period_of = month_period, period_label = month_end\<rparr>"

definition quarter_end_calendar :: calendar where
  "quarter_end_calendar = \<lparr>period_of = quarter_period, period_label = quarter_end\<rparr>"

text \<open>
  pandas' table of offset aliases: \<^verbatim>\<open>ME\<close> and \<^verbatim>\<open>QE\<close> are the two the source names;
  any other alias is looked up in \<open>aliases\<close>, a parameter of the model, and an alias
  pandas does not know is a ValueError.
\<close>

definition freq_calendar :: "(string \<Rightarrow> calendar option) \<Rightarrow> string \<Rightarrow> calendar option" where
  "freq_calendar aliases rule =
     (if rule = ''ME'' then Some month_end_calendar
      else if rule = ''QE'' then Some quarter_end_calendar
      else aliases rule)"

text \<open>The alias table that knows no alias besides the two built in.\<close>

definition no_aliases :: "string \<Rightarrow> calendar option" where
  "no_aliases rule = None"

section \<open>portfolio.py\<close>

text \<open>
  A weight dictionary is an association list with the dictionary's insertion order.
  \<^verbatim>\<open>
  def normalize_weights(w):
      s = pd.Series(w, dtype=float)
      total = s.sum()
      return s / total if total != 0 else s
  \<close>
\<close>

type_synonym weights = "(string \<times> real) list"

definition weights_sum :: "weights \<Rightarrow> real" where
  "weights_sum w = sum_list (map snd w)"

definition normalize_weights :: "weights \<Rightarrow> weights" where
  "normalize_weights w =
     (let total = weights_sum w
      in if total \<noteq> 0 then map (\<lambda>(k, v). (k, v / total)) w else w)"

definition weight_of :: "weights \<Rightarrow> string \<Rightarrow> real" where
  "weight_of w c = (case map_of w c of None \<Rightarrow> 0 | Some v \<Rightarrow> v)"

text \<open>
  \<^verbatim>\<open>
  def _to_resample_rule(rebalance):
      if rebalance is None:
          return None
      if rebalance == "M":
          return "ME"  # month-end
      if rebalance == "Q":
          return "QE"  # quarter-end
      return rebalance  # allow custom codes
  \<close>
\<close>

definition to_resample_rule :: "string option \<Rightarrow> string option" where
  "to_resample_rule rebalance =
     (case rebalance of
        None \<Rightarrow> None
      | Some r \<Rightarrow> if r = ''M'' then Some ''ME'' else if r = ''Q'' then Some ''QE'' else Some r)"

text \<open>
  \<^verbatim>\<open>(wealth * w.loc[cols]).sum(axis=1)\<close>: the weighted sum along row \<open>i\<close>; a missing
  cell adds nothing.
\<close>

definition weighted_cell :: "weights \<Rightarrow> nat \<Rightarrow> string \<times> series \<Rightarrow> real" where
  "weighted_cell w i cs =
     (case cell (snd cs) i of None \<Rightarrow> 0 | Some v \<Rightarrow> v * weight_of w (fst cs))"

definition weighted_row_sum :: "weights \<Rightarrow> (string \<times> series) list \<Rightarrow> nat \<Rightarrow> real" where
  "weighted_row_sum w cols i = sum_list (map (weighted_cell w i) cols)"

text \<open>\<^verbatim>\<open>pct_change()\<close> of a Series without missing cells: the first row has no predecessor.\<close>

definition pct_step :: "real \<Rightarrow> real \<Rightarrow> fl" where
  "pct_step prev cur = fl_sub (fl_div (Fin cur) (Fin prev)) (Fin 1)"

definition pct_change :: "real list \<Rightarrow> fl list" where
  "pct_change xs = (case xs of [] \<Rightarrow> [] | x # rest \<Rightarrow> NaN # map2 pct_step xs rest)"

text \<open>
  \<^verbatim>\<open>(1.0 + R).resample(rule).apply(lambda df: df.prod() - 1.0)\<close>: one bin for every
  period from the first to the last period of the index, a period without rows
  included; in each bin the product of \<open>1 + r\<close> over the rows of the period, less 1.
\<close>

definition in_period :: "calendar \<Rightarrow> nat \<Rightarrow> date \<times> real option \<Rightarrow> bool" where
  "in_period cal k dx = (period_of cal (fst dx) = k)"

definition period_return :: "calendar \<Rightarrow> date list \<Rightarrow> nat \<Rightarrow> series \<Rightarrow> real" where
  "period_return cal idx k s =
     pd_prod (map snd (filter (in_period cal k) (zip idx (s_add 1 s)))) - 1"

definition bins :: "calendar \<Rightarrow> date list \<Rightarrow> nat list" where
  "bins cal idx =
     (case map (period_of cal) idx of
        [] \<Rightarrow> []
      | k # ks \<Rightarrow> [fold min ks k ..< Suc (fold max ks k)])"

definition port_periodic ::
  "calendar \<Rightarrow> weights \<Rightarrow> date list \<Rightarrow> (string \<times> series) list \<Rightarrow> (date \<times> real) list" where
  "port_periodic cal w idx R =
     map (\<lambda>k. (period_label cal k,
               sum_list (map (\<lambda>cs. period_return cal idx k (snd cs) * weight_of w (fst cs)) R)))
         (bins cal idx)"

text \<open>
  \<^verbatim>\<open>reindex(R.index, method="ffill")\<close>: every day takes the value at the last label
  that is not after it, and is missing when there is none.
\<close>

definition label_le :: "date \<Rightarrow> date \<times> real \<Rightarrow> bool" where
  "label_le d lv = date_le (fst lv) d"

definition ffill_at :: "(date \<times> real) list \<Rightarrow> date \<Rightarrow> fl" where
  "ffill_at src d =
     (case filter (label_le d) src of
        [] \<Rightarrow> NaN
      | x # xs \<Rightarrow> Fin (snd (last (x # xs))))"

text \<open>
  \<^verbatim>\<open>
  def allocate_static(returns: pd.DataFrame, weights: dict, rebalance="M"):
      if returns is None or returns.empty:
          return pd.Series(dtype="float64", name="portfolio")
      w = normalize_weights(weights)
      cols = [c for c in w.index if c in returns.columns]
      if not cols:
          return pd.Series(dtype="float64", name="portfolio")
      R = returns.loc[:, cols].copy()
      R.index = pd.to_datetime(R.index)
      rule = _to_resample_rule(rebalance)
      if rule is None:
          # Buy & hold (drift)
          wealth = (1.0 + R).cumprod()
          port_wealth = (wealth * w.loc[cols]).sum(axis=1)
          port_ret = port_wealth.pct_change().dropna()
          port_ret.index = pd.to_datetime(port_ret.index)
          return port_ret.rename("portfolio")
      # Periodic rebalance: compound within period, then reapply weights
      grouped = (1.0 + R).resample(rule).apply(lambda df: df.prod() - 1.0)
      port_periodic = (grouped * w.loc[cols]).sum(axis=1)
      # Stepwise hold between rebalances -> forward-fill to daily index
      port = port_periodic.reindex(R.index, method="ffill")
      port.index = pd.to_datetime(port.index)
      return port.rename("portfolio")
  \<close>
\<close>

definition not_nan :: "date \<times> fl \<Rightarrow> bool" where
  "not_nan dv = (snd dv \<noteq> NaN)"

definition buy_and_hold :: "weights \<Rightarrow> date list \<Rightarrow> (string \<times> series) list \<Rightarrow> (date \<times> fl) list" where
  "buy_and_hold w idx R =
     (let wealth = map (\<lambda>cs. (fst cs, cumprod (s_add 1 (snd cs)))) R;
          port_wealth = map (weighted_row_sum w wealth) [0..<length idx];
          port_ret = filter not_nan (zip idx (pct_change port_wealth))
      in port_ret)"

definition rebalanced :: "calendar \<Rightarrow> weights \<Rightarrow> date list \<Rightarrow> (string \<times> series) list \<Rightarrow> (date \<times> fl) list" where
  "rebalanced cal w idx R =
     (let src = port_periodic cal w idx R
      in map (\<lambda>d. (d, ffill_at src d)) idx)"

definition allocate_static ::
  "(string \<Rightarrow> calendar option) \<Rightarrow> frame option \<Rightarrow> weights \<Rightarrow> string option
     \<Rightarrow> py_error + (date \<times> fl) list" where
  "allocate_static aliases returns weights rebalance =
     (case returns of
        None \<Rightarrow> Inr []
      | Some F \<Rightarrow>
          if frame_empty F then Inr []
          else
            let w = normalize_weights weights;
                cols = filter (\<lambda>c. c \<in> set (map fst (fcols F))) (map fst w)
            in if cols = [] then Inr []
               else
                 let R = map (\<lambda>c. (c, column F c)) cols
                 in case to_resample_rule rebalance of
                      None \<Rightarrow> Inr (buy_and_hold w (findex F) R)
                    | Some rule \<Rightarrow>
                        (case freq_calendar aliases rule of
                           None \<Rightarrow> Inl (ValueError (''Invalid frequency: '' @ rule))
                         | Some cal \<Rightarrow> Inr (rebalanced cal w (findex F) R)))"

section \<open>beta.py\<close>

text \<open>
  \<^verbatim>\<open>
  def rolling_beta(asset_rets: pd.Series, bench_rets: pd.Series, window=63):
      # beta = cov(asset, bench)/var(bench)
      cov = asset_rets.rolling(window).cov(bench_rets)
      var = bench_rets.rolling(window).var()
      return (cov / var).rename("beta")
  \<close>
  The two Series share one index (the caller aligns them), so row \<open>i\<close> of one is
  row \<open>i\<close> of the other; a row one Series lacks is missing. \<^verbatim>\<open>rolling(window)\<close>
  asks for \<^verbatim>\<open>window\<close> observations: a trailing window that is not yet full, or
  holds a missing cell, gives NaN. pandas computes the windowed covariance as
  \<^verbatim>\<open>(mean(x*y) - mean(x)*mean(y)) * n/(n - 1)\<close> and the variance with one degree of
  freedom removed.
\<close>

definition trailing :: "nat \<Rightarrow> nat \<Rightarrow> 'a list \<Rightarrow> 'a list" where
  "trailing w i xs = take w (drop (i + 1 - w) xs)"






section \<open>factors.py\<close>

text \<open>Matrices are lists of rows; the determinant is expanded along the first row.\<close>

definition drop_col :: "nat \<Rightarrow> real list \<Rightarrow> real list" where
  "drop_col j row = take j row @ drop (Suc j) row"

function det :: "real list list \<Rightarrow> real" where
  "det [] = 1"
| "det (r # rs) =
     sum_list (map (\<lambda>j. (- 1) ^ j * (r ! j) * det (map (drop_col j) rs)) [0..<length r])"
  by pat_completeness auto
termination
  by (relation "measure length") auto

definition mat_mul :: "real list list \<Rightarrow> real list list \<Rightarrow> real list list" where
  "mat_mul A B =
     map (\<lambda>row. map (\<lambda>col. sum_list (map2 (*) row col)) (transpose B)) A"

definition minor :: "real list list \<Rightarrow> nat \<Rightarrow> nat \<Rightarrow> real list list" where
  "minor A i j = map (drop_col j) (take i A @ drop (Suc i) A)"

text \<open>
  numpy's linear algebra works in binary64 through LAPACK: \<^verbatim>\<open>np.linalg.inv\<close> raises
  LinAlgError when the elimination meets a pivot that is exactly zero. The model of
  \<open>factor_regression\<close> takes the inversion and the least-squares solver as the
  parameters \<open>invert\<close> and \<open>solve\<close>. \<open>np_inv\<close> and \<open>lstsq\<close> are the two routines in exact
  arithmetic, where a zero pivot is met exactly when the determinant is 0; they
  agree with numpy where every intermediate value is exactly representable.
\<close>

definition np_inv :: "real list list \<Rightarrow> py_error + real list list" where
  "np_inv A =
     (if det A = 0 then Inl LinAlgError
      else Inr (map (\<lambda>i. map (\<lambda>j. (- 1) ^ (i + j) * det (minor A j i) / det A)
                              [0..<length A])
                    [0..<length A]))"

definition gram :: "real list list \<Rightarrow> real list list" where
  "gram X = mat_mul (transpose X) X"

text \<open>
  \<^verbatim>\<open>np.linalg.lstsq(X, y, rcond=None)\<close> in exact arithmetic: with independent
  columns the solution of the normal equations. With dependent columns numpy
  returns the least-squares solution of least norm; \<open>lstsq\<close> returns zeros there.
\<close>

definition lstsq :: "real list list \<Rightarrow> real list \<Rightarrow> real list" where
  "lstsq X y =
     (case np_inv (gram X) of
        Inl e \<Rightarrow> replicate (length (transpose X)) 0
      | Inr G \<Rightarrow> map (\<lambda>row. sum_list (map2 (*) row y)) (mat_mul G (transpose X)))"

record regression =
  coef :: "(string \<times> fl) list"
  stderr :: "(string \<times> fl) list"
  tstat :: "(string \<times> fl) list"
  r2 :: fl
  df_resid :: int

text \<open>
  \<^verbatim>\<open>pd.concat([port_rets.rename("y"), factors], axis=1).dropna()\<close>: the rows of the
  outer join in which no cell is missing. A date one side lacks has missing cells
  on that side. Both indexes hold each date once and no factor is named \<^verbatim>\<open>y\<close>.
  The rows are listed in the order of the portfolio series; the least-squares
  results do not depend on the order of the rows.
\<close>

definition factor_cells :: "frame \<Rightarrow> date \<Rightarrow> real option list" where
  "factor_cells F d =
     (case map_of (zip (findex F) [0..<length (findex F)]) d of
        None \<Rightarrow> map (\<lambda>cs. None) (fcols F)
      | Some i \<Rightarrow> map (\<lambda>cs. cell (snd cs) i) (fcols F))"

definition joined_row :: "frame \<Rightarrow> date \<times> real option \<Rightarrow> (real \<times> real list) option" where
  "joined_row F dy =
     (case snd dy of
        None \<Rightarrow> None
      | Some y \<Rightarrow>
          (let cells = factor_cells F (fst dy)
           in if None \<in> set cells then None else Some (y, map the cells)))"

definition joined :: "(date \<times> real option) list \<Rightarrow> frame \<Rightarrow> (real \<times> real list) list" where
  "joined port_rets F = List.map_filter (joined_row F) port_rets"

text \<open>The design matrix: a column of ones for the intercept, then the factors.\<close>

definition design :: "(real \<times> real list) list \<Rightarrow> real list list" where
  "design df = map (\<lambda>row. 1 # snd row) df"

definition finite_or_nan :: "fl \<Rightarrow> fl" where
  "finite_or_nan v = (case v of Fin x \<Rightarrow> Fin x | _ \<Rightarrow> NaN)"

text \<open>
  \<^verbatim>\<open>
  def factor_regression(port_rets: pd.Series, factors: pd.DataFrame):
      df = pd.concat([port_rets.rename("y"), factors], axis=1).dropna()
      if df.empty:
          raise ValueError("No overlapping data between portfolio and factors.")
      y = df["y"].to_numpy().reshape(-1, 1)
      Xf = df[factors.columns].to_numpy()
      X = np.column_stack([np.ones((Xf.shape[0], 1)), Xf])  # intercept
      colnames = ["const"] + list(factors.columns)
      beta, *_ = np.linalg.lstsq(X, y, rcond=None)         # (k+1, 1)
      y_hat = X @ beta
      resid = y - y_hat
      n, k = X.shape
      df_resid = n - k
      if df_resid <= 0:
          raise ValueError("Not enough observations for regression.")
      rss = float((resid**2).sum())
      tss = float(((y - y.mean())**2).sum())
      r2 = 1.0 - rss / tss if tss > 0 else np.nan
      sigma2 = rss / df_resid
      XtX_inv = np.linalg.inv(X.T @ X)
      var_beta = sigma2 * XtX_inv
      se_beta = np.sqrt(np.diag(var_beta)).reshape(-1, 1)
      with np.errstate(divide='ignore', invalid='ignore'):
          tstat = beta / se_beta
          tstat = np.where(np.isfinite(tstat), tstat, np.nan)
      return {"coef": ..., "stderr": ..., "tstat": ..., "r2": r2, "df_resid": df_resid}
  \<close>
\<close>

definition factor_regression ::
  "(real list list \<Rightarrow> real list \<Rightarrow> real list) \<Rightarrow>
   (real list list \<Rightarrow> py_error + real list list) \<Rightarrow>
   (date \<times> real option) list \<Rightarrow> frame \<Rightarrow> py_error + regression" where
  "factor_regression solve invert port_rets factors =
     (let df = joined port_rets factors
      in if df = [] then
           Inl (ValueError ''No overlapping data between portfolio and factors.'')
         else
           let y = map fst df;
               X = design df;
               colnames = ''const'' # map fst (fcols factors);
               beta = solve X y;
               y_hat = map (\<lambda>row. sum_list (map2 (*) row beta)) X;
               resid = map2 (-) y y_hat;
               n = int (length X);
               k = 1 + int (length (fcols factors));
               df_resid = n - k
           in if df_resid \<le> 0 then
                Inl (ValueError ''Not enough observations for regression.'')
              else
                let rss = sum_list (map (\<lambda>e. e\<^sup>2) resid);
                    tss = sq_dev y;
                    r2 = (if 0 < tss then Fin (1 - rss / tss) else NaN);
                    sigma2 = rss / real_of_int df_resid
                in case invert (gram X) of
                     Inl e \<Rightarrow> Inl e
                   | Inr XtX_inv \<Rightarrow>
                       let se_beta = map (\<lambda>i. np_sqrt (sigma2 * (XtX_inv ! i ! i)))
                                         [0..<length XtX_inv];
                           tstat = map2 (\<lambda>b se. finite_or_nan (fl_div (Fin b) se)) beta se_beta
                       in Inr \<lparr>coef = zip colnames (map Fin beta),
                               stderr = zip colnames se_beta,
                               tstat = zip colnames tstat,
                               r2 = r2,
                               df_resid = df_resid\<rparr>)"

text \<open>
  The overlap in the spec's words: the dates on which the portfolio series has a
  value and the factor matrix has a row with a value for every factor.
\<close>

definition overlap_dates :: "(date \<times> real option) list \<Rightarrow> frame \<Rightarrow> date set" where
  "overlap_dates port_rets F =
     {d. (\<exists>y. (d, Some y) \<in> set port_rets) \<and>
         (\<exists>i < length (findex F). findex F ! i = d \<and>
            (\<forall>cs \<in> set (fcols F). cell (snd cs) i \<noteq> None))}"

section \<open>Weights after normalisation\<close>

lemma weights_sum_scaled:
  "weights_sum (map (\<lambda>(k, v). (k, v / t)) w) = weights_sum w / t"
  by (induction w) (auto simp: weights_sum_def add_divide_distrib)

lemma nonneg_sum_list_zero:
  "\<forall>x \<in> set xs. (0::real) \<le> x \<Longrightarrow> sum_list xs = 0 \<Longrightarrow> \<forall>x \<in> set xs. x = 0"
  by (induction xs) (auto simp: add_nonneg_eq_0_iff sum_list_nonneg)

text \<open>
  C2: a weight vector holds non-negative weights. For every weight vector the
  normalised weights sum to 1 within 1e-9 whenever the raw sum is not zero (this
  half needs no sign condition), and they are all zero when the raw sum is
  exactly zero.
\<close>

theorem normalize_weights_sum:
  "(weights_sum w \<noteq> 0 \<longrightarrow> \<bar>weights_sum (normalize_weights w) - 1\<bar> \<le> 1 / 10 ^ 9) \<and>
   ((\<forall>v \<in> set (map snd w). 0 \<le> v) \<and> weights_sum w = 0 \<longrightarrow>
      (\<forall>v \<in> set (map snd (normalize_weights w)). v = 0))"
proof (intro conjI impI)
  assume nz: "weights_sum w \<noteq> 0"
  then have "weights_sum (normalize_weights w) = 1"
    by (simp add: normalize_weights_def weights_sum_scaled)
  then show "\<bar>weights_sum (normalize_weights w) - 1\<bar> \<le> 1 / 10 ^ 9"
    by simp
next
  assume z: "(\<forall>v \<in> set (map snd w). 0 \<le> v) \<and> weights_sum w = 0"
  then have "normalize_weights w = w"
    by (simp add: normalize_weights_def)
  moreover have "\<forall>v \<in> set (map snd w). v = 0"
    using z nonneg_sum_list_zero[of "map snd w"] by (simp add: weights_sum_def)
  ultimately show "\<forall>v \<in> set (map snd (normalize_weights w)). v = 0"
    by simp
qed

theorem normalize_weights_sum_witness:
  "weights_sum [(''A'', 2), (''B'', 6)] \<noteq> 0 \<and>
   \<bar>weights_sum (normalize_weights [(''A'', 2), (''B'', 6)]) - 1\<bar> \<le> 1 / 10 ^ 9 \<and>
   list_all (\<lambda>v. 0 \<le> v) (map snd [(''A'', 0::real), (''B'', 0)]) \<and>
   weights_sum [(''A'', 0), (''B'', 0)] = 0 \<and>
   list_all (\<lambda>v. v = 0) (map snd (normalize_weights [(''A'', 0), (''B'', 0)]))"
proof -
  have a: "weights_sum [(''A'', 2), (''B'', 6)] \<noteq> 0"
    by (simp add: weights_sum_def)
  have b: "(\<forall>v \<in> set (map snd [(''A'', 0::real), (''B'', 0)]). 0 \<le> v) \<and>
           weights_sum [(''A'', 0), (''B'', 0)] = 0"
    by (simp add: weights_sum_def)
  show ?thesis
    using a b normalize_weights_sum[of "[(''A'', 2), (''B'', 6)]"]
      normalize_weights_sum[of "[(''A'', 0), (''B'', 0)]"]
    unfolding list_all_iff by blast
qed

section \<open>The inverse normal CDF\<close>

text \<open>
  Neither division of \<open>norm_ppf\<close> meets a zero divisor. The central denominator,
  rewritten in powers of \<open>0.47575\<^sup>2 - r\<close>, has positive coefficients only, and
  the tail denominator has positive coefficients as it stands.
\<close>

lemma central_den_shift:
  "central_den (0.2263380625 - t) =
     ((((54.47609879822406 * t + 99.93576358529783909358125) * t
        + 37.31439516739773752473162737734375) * t
        + 4.430168458771026127435416321471309228515625) * t
        + 0.19064342483405741373184378894791212458813934326171875) * t
        + 0.002604420859410449577953714660589267394445718632755279541015625"
  unfolding central_den_def by algebra

lemma central_den_pos:
  assumes "r \<le> 0.2263380625"
  shows "0 < central_den r"
proof -
  define t where "t = 0.2263380625 - r"
  have t: "0 \<le> t" using assms by (simp add: t_def)
  have r: "r = 0.2263380625 - t" by (simp add: t_def)
  have "0 < ((((54.47609879822406 * t + 99.93576358529783909358125) * t
        + 37.31439516739773752473162737734375) * t
        + 4.430168458771026127435416321471309228515625) * t
        + 0.19064342483405741373184378894791212458813934326171875) * t
        + 0.002604420859410449577953714660589267394445718632755279541015625"
    using t by (intro add_nonneg_pos mult_nonneg_nonneg add_nonneg_nonneg) simp_all
  then show ?thesis unfolding r central_den_shift .
qed

lemma tail_den_pos: "0 \<le> q \<Longrightarrow> 1 \<le> tail_den q"
  unfolding tail_den_def
  by (intro add_increasing mult_nonneg_nonneg add_nonneg_nonneg) simp_all

lemma central_square_bound:
  assumes "plow \<le> p" "p \<le> phigh"
  shows "(p - 0.5) * (p - 0.5) \<le> 0.2263380625"
proof -
  have "\<bar>p - 0.5\<bar> \<le> 0.47575"
    using assms by (auto simp: plow_def phigh_def abs_if)
  then have "\<bar>p - 0.5\<bar> * \<bar>p - 0.5\<bar> \<le> 0.47575 * 0.47575"
    by (intro mult_mono) simp_all
  then show ?thesis by (simp add: abs_mult_self_eq)
qed

lemma norm_ppf_central:
  assumes "plow \<le> p" "p \<le> phigh"
  shows "norm_ppf p =
           Inr (Fin (central_num ((p - 0.5) * (p - 0.5)) * (p - 0.5)
                     / central_den ((p - 0.5) * (p - 0.5))))"
proof -
  have "0 < central_den ((p - 0.5) * (p - 0.5))"
    using central_square_bound[OF assms] by (rule central_den_pos)
  moreover have "\<not> p \<le> 0" "\<not> 1 \<le> p" "\<not> p < plow" "\<not> phigh < p"
    using assms by (simp_all add: plow_def phigh_def)
  ultimately show ?thesis
    by (simp add: norm_ppf_def Let_def)
qed

lemma norm_ppf_lower:
  assumes "0 < p" "p < plow"
  shows "norm_ppf p = Inr (Fin (tail_num (sqrt (- 2 * ln p)) / tail_den (sqrt (- 2 * ln p))))"
proof -
  have "p < 1" using assms by (simp add: plow_def)
  then have "ln p < 0" using assms by simp
  then have "0 \<le> sqrt (- 2 * ln p)" by simp
  then have "tail_den (sqrt (- 2 * ln p)) \<noteq> 0"
    using tail_den_pos[of "sqrt (- 2 * ln p)"] by simp
  then show ?thesis
    using assms \<open>p < 1\<close> by (simp add: norm_ppf_def Let_def)
qed

lemma norm_ppf_upper:
  assumes "phigh < p" "p < 1"
  shows "norm_ppf p =
           Inr (Fin (- tail_num (sqrt (- 2 * ln (1 - p))) / tail_den (sqrt (- 2 * ln (1 - p)))))"
proof -
  have p: "0 < p" "\<not> p < plow" using assms by (simp_all add: plow_def phigh_def)
  have "ln (1 - p) < 0" using assms p by simp
  then have "0 \<le> sqrt (- 2 * ln (1 - p))" by simp
  then have "tail_den (sqrt (- 2 * ln (1 - p))) \<noteq> 0"
    using tail_den_pos[of "sqrt (- 2 * ln (1 - p))"] by simp
  then show ?thesis
    using assms p by (simp add: norm_ppf_def Let_def)
qed

lemma central_odd:
  "central_num ((- q) * (- q)) * (- q) / central_den ((- q) * (- q)) =
     - (central_num (q * q) * q / central_den (q * q))"
  by simp

lemma norm_ppf_antisymmetric:
  assumes "0 < p" "p < 1"
  shows "\<exists>x. norm_ppf p = Inr (Fin x) \<and> norm_ppf (1 - p) = Inr (Fin (- x))"
proof -
  consider "p < plow" | "phigh < p" | "plow \<le> p" "p \<le> phigh"
    by linarith
  then show ?thesis
  proof cases
    case 1
    then have "phigh < 1 - p" "1 - p < 1"
      using assms by (simp_all add: plow_def phigh_def)
    then show ?thesis
      using norm_ppf_lower[OF assms(1) 1] norm_ppf_upper[of "1 - p"] by simp
  next
    case 2
    then have "0 < 1 - p" "1 - p < plow"
      using assms by (simp_all add: plow_def phigh_def)
    then show ?thesis
      using norm_ppf_upper[OF 2 assms(2)] norm_ppf_lower[of "1 - p"] by simp
  next
    case 3
    then have "plow \<le> 1 - p" "1 - p \<le> phigh"
      by (simp_all add: plow_def phigh_def)
    have e: "1 - p - 0.5 = - (p - 0.5)" by simp
    have "norm_ppf (1 - p) =
        Inr (Fin (central_num ((1 - p - 0.5) * (1 - p - 0.5)) * (1 - p - 0.5)
                     / central_den ((1 - p - 0.5) * (1 - p - 0.5))))"
      using \<open>plow \<le> 1 - p\<close> \<open>1 - p \<le> phigh\<close> by (rule norm_ppf_central)
    then have "norm_ppf (1 - p) =
        Inr (Fin (- (central_num ((p - 0.5) * (p - 0.5)) * (p - 0.5)
                     / central_den ((p - 0.5) * (p - 0.5)))))"
      unfolding e central_odd .
    then show ?thesis
      using norm_ppf_central[OF 3] by simp
  qed
qed

lemma norm_ppf_half: "norm_ppf 0.5 = Inr (Fin 0)"
proof -
  have "plow \<le> 0.5" "0.5 \<le> phigh" by (simp_all add: plow_def phigh_def)
  from norm_ppf_central[OF this] show ?thesis by simp
qed

lemma norm_ppf_975:
  "\<exists>x. norm_ppf 0.975 = Inr (Fin x) \<and> \<bar>x - 1.959964\<bar> \<le> 1 / 10 ^ 6"
proof -
  have "plow \<le> 0.975" "0.975 \<le> phigh" by (simp_all add: plow_def phigh_def)
  from norm_ppf_central[OF this]
  have "norm_ppf 0.975 = Inr (Fin (1565713706127574936278201074 / 798848201913635967184059665))"
    by (simp add: central_num_def central_den_def)
  then show ?thesis
    by (intro exI[of _ "1565713706127574936278201074 / 798848201913635967184059665"]) simp
qed



text \<open>
  C4: for every \<open>p\<close> in (0,1) \<open>norm_ppf\<close> returns a finite value and
  \<open>norm_ppf (1 - p)\<close> is its negation; \<open>norm_ppf 0.5\<close> is 0; \<open>norm_ppf 0.975\<close> is
  within 1e-6 of 1.959964; at \<open>p \<le> 0\<close> the result is minus infinity and at
  \<open>p \<ge> 1\<close> plus infinity.
\<close>

theorem norm_ppf_properties:
  "(\<forall>p. 0 < p \<and> p < 1 \<longrightarrow>
      (\<exists>x. norm_ppf p = Inr (Fin x) \<and> norm_ppf (1 - p) = Inr (Fin (- x)))) \<and>
   norm_ppf 0.5 = Inr (Fin 0) \<and>
   (\<exists>x. norm_ppf 0.975 = Inr (Fin x) \<and> \<bar>x - 1.959964\<bar> \<le> 1 / 10 ^ 6) \<and>
   (\<forall>p. p \<le> 0 \<longrightarrow> norm_ppf p = Inr NInf) \<and>
   (\<forall>p. 1 \<le> p \<longrightarrow> norm_ppf p = Inr PInf)"
proof (intro conjI allI impI)
  fix p :: real
  assume "0 < p \<and> p < 1"
  then show "\<exists>x. norm_ppf p = Inr (Fin x) \<and> norm_ppf (1 - p) = Inr (Fin (- x))"
    using norm_ppf_antisymmetric by blast
next
  show "norm_ppf 0.5 = Inr (Fin 0)"
    by (rule norm_ppf_half)
next
  show "\<exists>x. norm_ppf 0.975 = Inr (Fin x) \<and> \<bar>x - 1.959964\<bar> \<le> 1 / 10 ^ 6"
    by (rule norm_ppf_975)
next
  fix p :: real
  assume "p \<le> 0"
  then show "norm_ppf p = Inr NInf"
    by (simp add: norm_ppf_def)
next
  fix p :: real
  assume "1 \<le> p"
  then show "norm_ppf p = Inr PInf"
    by (simp add: norm_ppf_def)
qed

theorem norm_ppf_properties_witness:
  "(0::real) < 1 / 4 \<and> (1 / 4 :: real) < 1 \<and>
   (\<exists>x. norm_ppf (1 / 4) = Inr (Fin x) \<and> norm_ppf (1 - 1 / 4) = Inr (Fin (- x))) \<and>
   norm_ppf (- 1) = Inr NInf \<and> norm_ppf 2 = Inr PInf"
proof -
  have h: "(0::real) < 1 / 4 \<and> (1 / 4 :: real) < 1" by simp
  have lo: "(- 1 :: real) \<le> 0" and hi: "(1::real) \<le> 2" by simp_all
  show ?thesis
    using h lo hi norm_ppf_properties by blast
qed

section \<open>Historical VaR and CVaR\<close>

lemma obs_dropna: "obs (dropna s) = obs s"
  by (simp add: obs_def dropna_def)


lemma fl_le_Fin: "fl_le (Fin x) (Fin v) = (x \<le> v)"
  by (auto simp: fl_le_def fl_eq_def)

lemma at_or_below_Some: "at_or_below (Fin v) (Some x) = (x \<le> v)"
  by (simp add: at_or_below_def fl_le_Fin)

lemma at_or_below_None: "at_or_below q None = False"
  by (simp add: at_or_below_def)

lemma obs_Cons_Some: "obs (Some x # s) = x # obs s"
  by (simp add: obs_def dropna_def)

lemma obs_Cons_None: "obs (None # s) = obs s"
  by (simp add: obs_def dropna_def)

lemma dropna_Cons_Some: "dropna (Some x # s) = Some x # dropna s"
  by (simp add: dropna_def)

lemma dropna_Cons_None: "dropna (None # s) = dropna s"
  by (simp add: dropna_def)

lemma obs_tail:
  "obs (filter (at_or_below (Fin v)) (dropna s)) = filter (\<lambda>x. x \<le> v) (obs s)"
proof (induction s)
  case Nil
  then show ?case by (simp add: obs_def dropna_def)
next
  case (Cons a s)
  then show ?case
    by (cases a)
       (simp_all add: obs_Cons_Some obs_Cons_None dropna_Cons_Some dropna_Cons_None
          at_or_below_Some)
qed

lemma tail_empty_iff:
  "filter (at_or_below (Fin v)) (dropna s) = [] \<longleftrightarrow> filter (\<lambda>x. x \<le> v) (obs s) = []"
proof (induction s)
  case Nil
  then show ?case by (simp add: obs_def dropna_def)
next
  case (Cons a s)
  then show ?case
    by (cases a)
       (simp_all add: obs_Cons_Some obs_Cons_None dropna_Cons_Some dropna_Cons_None
          at_or_below_Some)
qed

lemma sum_list_le_length_times:
  "\<forall>x \<in> set xs. x \<le> (v::real) \<Longrightarrow> sum_list xs \<le> real (length xs) * v"
  by (induction xs) (auto simp: algebra_simps)

lemma mean_le:
  assumes "xs \<noteq> []" "\<forall>x \<in> set xs. x \<le> v"
  shows "mean xs \<le> v"
proof -
  have "0 < real (length xs)" using assms(1) by simp
  then show ?thesis
    using sum_list_le_length_times[OF assms(2)]
    by (simp add: mean_def pos_divide_le_eq mult.commute)
qed

lemma np_quantile_bounds:
  assumes "a \<noteq> []" "0 \<le> q" "q \<le> 1"
  shows "\<exists>v. np_quantile a q = Inr v \<and> (\<exists>x \<in> set a. x \<le> v)"
proof -
  define s where "s = sort a"
  define n where "n = length a"
  define h where "h = real (n - 1) * q"
  define lo where "lo = nat \<lfloor>h\<rfloor>"
  define hi where "hi = min (lo + 1) (n - 1)"
  have n: "0 < n" using assms(1) by (simp add: n_def)
  have h0: "0 \<le> h" using assms(2) by (simp add: h_def)
  have h1: "h \<le> real (n - 1)"
    using assms(3) by (simp add: h_def mult_left_le)
  have "\<lfloor>h\<rfloor> \<le> int (n - 1)" using h1 by (simp add: floor_le_iff)
  then have lo: "lo \<le> n - 1" by (simp add: lo_def)
  have lo_h: "real lo \<le> h" using h0 by (simp add: lo_def)
  have hi: "lo \<le> hi" "hi < n" using lo n by (simp_all add: hi_def)
  have len: "length s = n" by (simp add: s_def n_def)
  have "sorted s" by (simp add: s_def)
  then have mono: "s ! lo \<le> s ! hi"
    using hi len by (simp add: sorted_nth_mono)
  have v: "np_quantile a q = Inr (s ! lo + (s ! hi - s ! lo) * (h - real lo))"
    using assms by (simp add: np_quantile_def Let_def s_def n_def h_def lo_def hi_def)
  have "0 \<le> (s ! hi - s ! lo) * (h - real lo)"
    using mono lo_h by simp
  then have "s ! lo \<le> s ! lo + (s ! hi - s ! lo) * (h - real lo)" by simp
  moreover have "s ! lo \<in> set a"
  proof -
    have "lo < length s" using hi len by simp
    then have "s ! lo \<in> set s" by (rule nth_mem)
    then show ?thesis by (simp add: s_def)
  qed
  ultimately show ?thesis using v by blast
qed

lemma var_historical_value:
  assumes "obs rets \<noteq> []" "0 < alpha" "alpha < 1"
  shows "\<exists>v. var_historical rets alpha = Inr (Fin v) \<and> (\<exists>x \<in> set (obs rets). x \<le> v)"
proof -
  from np_quantile_bounds[of "obs rets" "1 - alpha"] assms
  obtain v where "np_quantile (obs rets) (1 - alpha) = Inr v" "\<exists>x \<in> set (obs rets). x \<le> v"
    by auto
  then show ?thesis
    by (auto simp: var_historical_def obs_dropna)
qed

lemma cvar_historical_value:
  assumes "var_historical rets alpha = Inr (Fin v)" "\<exists>x \<in> set (obs rets). x \<le> v"
  shows "cvar_historical rets alpha = Inr (Fin (mean (filter (\<lambda>x. x \<le> v) (obs rets))))"
    and "filter (at_or_below (Fin v)) (dropna rets) \<noteq> []"
proof -
  have ne: "filter (\<lambda>x. x \<le> v) (obs rets) \<noteq> []"
    using assms(2) by (auto simp: filter_empty_conv)
  then show t: "filter (at_or_below (Fin v)) (dropna rets) \<noteq> []"
    by (simp add: tail_empty_iff)
  show "cvar_historical rets alpha = Inr (Fin (mean (filter (\<lambda>x. x \<le> v) (obs rets))))"
    using assms(1) ne t by (simp add: cvar_historical_def Let_def pd_mean_def obs_tail)
qed

text \<open>
  C3: for every return series with at least one observation left after dropping the
  missing ones and every confidence level \<open>alpha\<close> in (0,1), both estimators return
  a number and \<open>cvar_historical rets alpha \<le> var_historical rets alpha\<close>.
\<close>

theorem cvar_le_var:
  assumes "obs rets \<noteq> []" "0 < alpha" "alpha < 1"
  shows "\<exists>c v. cvar_historical rets alpha = Inr (Fin c) \<and>
               var_historical rets alpha = Inr (Fin v) \<and> c \<le> v"
proof -
  from var_historical_value[OF assms]
  obtain v where v: "var_historical rets alpha = Inr (Fin v)" "\<exists>x \<in> set (obs rets). x \<le> v"
    by blast
  have ne: "filter (\<lambda>x. x \<le> v) (obs rets) \<noteq> []"
    using v(2) by (auto simp: filter_empty_conv)
  have "mean (filter (\<lambda>x. x \<le> v) (obs rets)) \<le> v"
    using ne by (intro mean_le) auto
  then show ?thesis
    using v cvar_historical_value(1)[OF v] by blast
qed

theorem cvar_le_var_witness:
  "obs [Some 1, None, Some 3] \<noteq> [] \<and> (0::real) < 1 / 2 \<and> (1 / 2 :: real) < 1 \<and>
   (\<exists>c v. cvar_historical [Some 1, None, Some 3] (1 / 2) = Inr (Fin c) \<and>
           var_historical [Some 1, None, Some 3] (1 / 2) = Inr (Fin v) \<and> c \<le> v)"
proof -
  have h: "obs [Some 1, None, Some 3] \<noteq> []" by (simp add: obs_def dropna_def)
  show ?thesis
    using h cvar_le_var[OF h, of "1 / 2"] by simp
qed



section \<open>Rolling beta of a series against itself\<close>







lemma length_trailing:
  "i < length xs \<Longrightarrow> w \<le> i + 1 \<Longrightarrow> length (trailing w i xs) = w"
  by (simp add: trailing_def)





section \<open>Risk metrics on degenerate input\<close>

lemma fl_add_NaN_right: "fl_add a NaN = NaN"
  by (cases a) simp_all

lemma fl_mul_NaN_right: "fl_mul a NaN = NaN"
  by (cases a) simp_all



lemma obs_Nil: "obs [] = []"
  by (simp add: obs_def dropna_def)








section \<open>Risk metrics and missing values\<close>
















section \<open>Buy and hold with a single symbol\<close>

lemma cumprod_from_running: "cumprod_from a (map Some xs) = map Some (running a xs)"
  by (induction xs arbitrary: a) simp_all

lemma length_running: "length (running a xs) = length xs"
  by (induction xs arbitrary: a) simp_all

lemma weighted_single_column:
  "map (weighted_row_sum w [(c, map Some ys)]) [0..<length ys] =
     map (\<lambda>v. v * weight_of w c) ys"
  by (rule nth_equalityI) (simp_all add: weighted_row_sum_def weighted_cell_def cell_def)

lemma pct_step_ratio:
  "a \<noteq> 0 \<Longrightarrow> wc \<noteq> 0 \<Longrightarrow> pct_step (a * wc) (a * x * wc) = Fin (x - 1)"
  by (simp add: pct_step_def fl_sub_def)

lemma pct_steps_running:
  assumes "a \<noteq> 0" "wc \<noteq> 0" "\<forall>x \<in> set xs. x \<noteq> 0"
  shows "map2 pct_step (map (\<lambda>v. v * wc) (a # running a xs)) (map (\<lambda>v. v * wc) (running a xs)) =
           map (\<lambda>x. Fin (x - 1)) xs"
  using assms
proof (induction xs arbitrary: a)
  case Nil
  then show ?case by simp
next
  case (Cons x xs)
  then have "a * x \<noteq> 0" by simp
  then have "map2 pct_step (map (\<lambda>v. v * wc) (a * x # running (a * x) xs))
                 (map (\<lambda>v. v * wc) (running (a * x) xs)) = map (\<lambda>x. Fin (x - 1)) xs"
    using Cons by simp
  then show ?case
    using Cons.prems by (simp add: pct_step_ratio)
qed

lemma pct_change_running:
  assumes "wc \<noteq> 0" "\<forall>x \<in> set xs. x \<noteq> 0" "xs \<noteq> []"
  shows "pct_change (map (\<lambda>v. v * wc) (running 1 xs)) = NaN # map (\<lambda>x. Fin (x - 1)) (tl xs)"
proof -
  obtain x xs' where xs: "xs = x # xs'" using assms(3) by (cases xs) auto
  have "x \<noteq> 0" "\<forall>y \<in> set xs'. y \<noteq> 0" using assms(2) xs by simp_all
  then show ?thesis
    using pct_steps_running[of x wc xs'] assms(1) by (simp add: xs pct_change_def)
qed

lemma keep_finite:
  "length ds = length ys \<Longrightarrow> filter not_nan (zip ds (map Fin ys)) = zip ds (map Fin ys)"
  by (induction ds ys rule: list_induct2) (simp_all add: not_nan_def)

lemma column_length:
  assumes "wf_frame F" "c \<in> set (map fst (fcols F))"
  shows "length (column F c) = length (findex F)"
proof -
  obtain s where s: "map_of (fcols F) c = Some s"
    using assms(2) by (metis map_of_eq_None_iff not_Some_eq set_map)
  then have "(c, s) \<in> set (fcols F)" by (rule map_of_SomeD)
  then have "length s = length (findex F)"
    using assms(1) by (auto simp: wf_frame_def list_all_iff)
  then show ?thesis by (simp add: column_def s)
qed

text \<open>
  C5, as stated, fails: \<^verbatim>\<open>pct_change().dropna()\<close> has no value for the first row
  and drops it, so the result starts at the second date of the input column. With
  the returns 0.25 and 0.5 every intermediate value is a binary fraction.
\<close>

theorem buy_and_hold_first_row_counterexample:
  "allocate_static no_aliases
     (Some \<lparr>findex = [(2024, 1, 2), (2024, 1, 3)],
            fcols = [(''A'', [Some (1 / 4), Some (1 / 2)])]\<rparr>)
     [(''A'', 1)] None = Inr [((2024, 1, 3), Fin (1 / 2))] \<and>
   allocate_static no_aliases
     (Some \<lparr>findex = [(2024, 1, 2), (2024, 1, 3)],
            fcols = [(''A'', [Some (1 / 4), Some (1 / 2)])]\<rparr>)
     [(''A'', 1)] None \<noteq> Inr [((2024, 1, 2), Fin (1 / 4)), ((2024, 1, 3), Fin (1 / 2))]"
  by (simp add: allocate_static_def frame_empty_def normalize_weights_def weights_sum_def
        column_def to_resample_rule_def buy_and_hold_def cumprod_def s_add_def
        weighted_row_sum_def weighted_cell_def cell_def weight_of_def pct_change_def
        pct_step_def fl_sub_def not_nan_def upt_rec[of 0] upt_rec[of 1] upt_rec[of 2] Let_def)

text \<open>
  In exact arithmetic the quotient of consecutive wealth values less 1 is the
  return itself.
\<close>

lemma buy_and_hold_exact_arithmetic:
  assumes "wf_frame F" "\<not> frame_empty F"
    and "filter (\<lambda>k. k \<in> set (map fst (fcols F))) (map fst (normalize_weights weights)) = [c]"
    and "column F c = map Some vs"
    and "weight_of (normalize_weights weights) c \<noteq> 0"
    and "\<forall>v \<in> set vs. v \<noteq> - 1"
  shows "allocate_static aliases (Some F) weights None =
           Inr (zip (tl (findex F)) (map Fin (tl vs)))"
proof -
  define w where "w = normalize_weights weights"
  define xs where "xs = map (\<lambda>v. 1 + v) vs"
  have "c \<in> set (filter (\<lambda>k. k \<in> set (map fst (fcols F))) (map fst w))"
    using assms(3) by (simp add: w_def)
  then have "c \<in> set (map fst (fcols F))" by simp
  then have "length (column F c) = length (findex F)"
    using assms(1) column_length by blast
  then have len: "length vs = length (findex F)" by (simp add: assms(4))
  have ne: "findex F \<noteq> []" using assms(2) by (simp add: frame_empty_def)
  then have xs_ne: "xs \<noteq> []" using len by (auto simp: xs_def)
  have nz: "\<forall>x \<in> set xs. x \<noteq> 0"
    using assms(6) by (auto simp: xs_def add_eq_0_iff)
  have wealth: "cumprod (s_add 1 (map Some vs)) = map Some (running 1 xs)"
    by (simp add: cumprod_def s_add_def xs_def cumprod_from_running[symmetric] comp_def)
  have lr: "length (findex F) = length (running 1 xs)"
    by (simp add: length_running xs_def len)
  have pw: "map (weighted_row_sum w [(c, map Some (running 1 xs))]) [0..<length (findex F)] =
              map (\<lambda>v. v * weight_of w c) (running 1 xs)"
    unfolding lr by (rule weighted_single_column)
  have pc: "pct_change (map (\<lambda>v. v * weight_of w c) (running 1 xs)) = NaN # map Fin (tl vs)"
    using pct_change_running[OF _ nz xs_ne, of "weight_of w c"] assms(5)
    by (simp add: w_def xs_def map_tl comp_def)
  have bh: "buy_and_hold w (findex F) [(c, column F c)] =
              filter not_nan (zip (findex F) (NaN # map Fin (tl vs)))"
    by (simp add: buy_and_hold_def assms(4) wealth pw pc)
  obtain d ds where idx: "findex F = d # ds" using ne by (cases "findex F") auto
  have "length ds = length (tl vs)" using len idx by simp
  then have "filter not_nan (zip (findex F) (NaN # map Fin (tl vs))) =
               zip (tl (findex F)) (map Fin (tl vs))"
    by (simp add: idx not_nan_def keep_finite)
  then have "buy_and_hold w (findex F) [(c, column F c)] = zip (tl (findex F)) (map Fin (tl vs))"
    using bh by simp
  then show ?thesis
    using assms(2,3)
    by (simp add: allocate_static_def w_def[symmetric] to_resample_rule_def Let_def)
qed

text \<open>
  C5, amended: for every non-empty return matrix whose effective universe is a
  single symbol, when that symbol's column has no missing value and no return of
  -1 and its normalised weight is not zero, \<open>allocate_static\<close> with
  \<^verbatim>\<open>rebalance=None\<close> returns that symbol's return series from its second row on:
  the dates of the input column without the first, and at each of them the
  column's value up to rounding (within 1e-9).
\<close>

theorem buy_and_hold_single_symbol:
  assumes "wf_frame F" "\<not> frame_empty F"
    and "filter (\<lambda>k. k \<in> set (map fst (fcols F))) (map fst (normalize_weights weights)) = [c]"
    and "column F c = map Some vs"
    and "weight_of (normalize_weights weights) c \<noteq> 0"
    and "\<forall>v \<in> set vs. v \<noteq> - 1"
  shows "\<exists>out. allocate_static aliases (Some F) weights None = Inr out \<and>
           map fst out = tl (findex F) \<and>
           length out = length (tl vs) \<and>
           (\<forall>i < length out. \<exists>x. snd (out ! i) = Fin x \<and> \<bar>x - tl vs ! i\<bar> \<le> 1 / 10 ^ 9)"
proof -
  have "c \<in> set (filter (\<lambda>k. k \<in> set (map fst (fcols F))) (map fst (normalize_weights weights)))"
    using assms(3) by simp
  then have "c \<in> set (map fst (fcols F))" by simp
  then have "length (column F c) = length (findex F)"
    using assms(1) column_length by blast
  then have len: "length (tl (findex F)) = length (map Fin (tl vs))"
    by (simp add: assms(4))
  let ?out = "zip (tl (findex F)) (map Fin (tl vs))"
  have out: "allocate_static aliases (Some F) weights None = Inr ?out"
    using assms by (rule buy_and_hold_exact_arithmetic)
  have "map fst ?out = tl (findex F)"
    using len by (rule map_fst_zip)
  moreover have "length ?out = length (tl vs)"
    using len by simp
  moreover have "\<exists>x. snd (?out ! i) = Fin x \<and> \<bar>x - tl vs ! i\<bar> \<le> 1 / 10 ^ 9"
    if "i < length ?out" for i
    using that len by simp
  ultimately show ?thesis
    using out by blast
qed

theorem buy_and_hold_single_symbol_witness:
  "wf_frame \<lparr>findex = [(2024, 1, 2), (2024, 1, 3), (2024, 1, 4)],
             fcols = [(''A'', [Some (1 / 10), Some (1 / 5), Some (- 1 / 2)])]\<rparr> \<and>
   (\<exists>out. allocate_static no_aliases
      (Some \<lparr>findex = [(2024, 1, 2), (2024, 1, 3), (2024, 1, 4)],
             fcols = [(''A'', [Some (1 / 10), Some (1 / 5), Some (- 1 / 2)])]\<rparr>)
      [(''A'', 2), (''B'', 2)] None = Inr out \<and>
      map fst out = [(2024, 1, 3), (2024, 1, 4)] \<and>
      length out = 2)"
proof -
  let ?F = "\<lparr>findex = [(2024, 1, 2), (2024, 1, 3), (2024, 1, 4)],
             fcols = [(''A'', [Some (1 / 10), Some (1 / 5), Some (- 1 / 2)])]\<rparr>"
  let ?w = "[(''A'', 2), (''B'', 2)]"
  have wf: "wf_frame ?F"
    by (simp add: wf_frame_def valid_date_def days_in_month_def)
  have ne: "\<not> frame_empty ?F"
    by (simp add: frame_empty_def)
  have nw: "normalize_weights ?w = [(''A'', 1 / 2), (''B'', 1 / 2)]"
    by (simp add: normalize_weights_def weights_sum_def)
  have u: "filter (\<lambda>k. k \<in> set (map fst (fcols ?F))) (map fst (normalize_weights ?w)) = [''A'']"
    by (simp add: nw)
  have col: "column ?F ''A'' = map Some [1 / 10, 1 / 5, - 1 / 2]"
    by (simp add: column_def)
  have wt: "weight_of (normalize_weights ?w) ''A'' \<noteq> 0"
    by (simp add: nw weight_of_def)
  have r: "\<forall>v \<in> set [1 / 10, 1 / 5, - 1 / 2 :: real]. v \<noteq> - 1"
    by simp
  show ?thesis
    using wf buy_and_hold_single_symbol[OF wf ne u col wt r, of no_aliases] by auto
qed

section \<open>Periodic rebalancing\<close>

text \<open>
  A day is on or after the end label of a period exactly when the period lies
  before the day's own period, or is the day's own period and the day is its
  last calendar day.
\<close>

lemma month_end_le:
  assumes "valid_date d"
  shows "date_le (month_end k) d \<longleftrightarrow> k < month_period d \<or> (k = month_period d \<and> d = month_end k)"
proof -
  obtain y m day where d: "d = (y, m, day)" by (cases d) auto
  have v: "1 \<le> m" "m \<le> 12" "1 \<le> day" "day \<le> days_in_month y m"
    using assms by (simp_all add: valid_date_def d)
  have k: "k = 12 * (k div 12) + k mod 12" "k mod 12 < 12" by simp_all
  consider "k div 12 < y" | "k div 12 = y" "k mod 12 + 1 < m" | "k div 12 = y" "k mod 12 + 1 = m"
    | "k div 12 = y" "m < k mod 12 + 1" | "y < k div 12"
    by linarith
  then show ?thesis
  proof cases
    case 1
    then show ?thesis using v k by (auto simp: d date_le_def month_end_def month_period_def)
  next
    case 2
    then show ?thesis using v k by (auto simp: d date_le_def month_end_def month_period_def)
  next
    case 3
    then have "k = 12 * y + (m - 1)" using k by linarith
    then show ?thesis using v 3 by (auto simp: d date_le_def month_end_def month_period_def)
  next
    case 4
    then show ?thesis using v k by (auto simp: d date_le_def month_end_def month_period_def)
  next
    case 5
    then show ?thesis using v k by (auto simp: d date_le_def month_end_def month_period_def)
  qed
qed


lemma quarter_end_le:
  assumes "valid_date d"
  shows "date_le (quarter_end k) d \<longleftrightarrow>
           k < quarter_period d \<or> (k = quarter_period d \<and> d = quarter_end k)"
proof -
  obtain y m day where d: "d = (y, m, day)" by (cases d) auto
  have v: "1 \<le> m" "m \<le> 12" "1 \<le> day" "day \<le> days_in_month y m"
    using assms by (simp_all add: valid_date_def d)
  have k: "k = 4 * (k div 4) + k mod 4" "k mod 4 < 4" by simp_all
  have m: "3 * ((m - 1) div 3) + 1 \<le> m" "m \<le> 3 * ((m - 1) div 3) + 3" "(m - 1) div 3 < 4"
    using v by linarith+
  consider "k div 4 < y" | "k div 4 = y" "k mod 4 < (m - 1) div 3"
    | "k div 4 = y" "k mod 4 = (m - 1) div 3" | "k div 4 = y" "(m - 1) div 3 < k mod 4"
    | "y < k div 4"
    by linarith
  then show ?thesis
  proof cases
    case 1
    then show ?thesis using v k m by (auto simp: d date_le_def quarter_end_def quarter_period_def)
  next
    case 2
    then have "3 * (k mod 4) + 3 < m" using m by linarith
    then show ?thesis using 2 v k m by (auto simp: d date_le_def quarter_end_def quarter_period_def)
  next
    case 3
    then have "k = 4 * y + (m - 1) div 3" using k by linarith
    then show ?thesis using v 3 m by (auto simp: d date_le_def quarter_end_def quarter_period_def)
  next
    case 4
    then have "m < 3 * (k mod 4) + 3" using m by linarith
    then show ?thesis using 4 v k m by (auto simp: d date_le_def quarter_end_def quarter_period_def)
  next
    case 5
    then show ?thesis using v k m by (auto simp: d date_le_def quarter_end_def quarter_period_def)
  qed
qed

lemma ffill_same:
  assumes "\<And>k. date_le (lab k) d1 = date_le (lab k) d2"
  shows "ffill_at (map (\<lambda>k. (lab k, val k)) ks) d1 = ffill_at (map (\<lambda>k. (lab k, val k)) ks) d2"
proof -
  have "filter (label_le d1) (map (\<lambda>k. (lab k, val k)) ks) =
        filter (label_le d2) (map (\<lambda>k. (lab k, val k)) ks)"
    by (rule filter_cong) (auto simp: label_le_def assms)
  then show ?thesis by (simp add: ffill_at_def)
qed

lemma rebalanced_index: "map fst (rebalanced cal w idx R) = idx"
  by (simp add: rebalanced_def Let_def comp_def)

lemma rebalanced_steps:
  assumes anch: "\<And>k d. valid_date d \<Longrightarrow>
            date_le (period_label cal k) d \<longleftrightarrow>
              k < period_of cal d \<or> (k = period_of cal d \<and> d = period_label cal k)"
    and valid: "list_all valid_date idx"
    and dv: "dv1 \<in> set (rebalanced cal w idx R)" "dv2 \<in> set (rebalanced cal w idx R)"
    and same: "(period_of cal (fst dv1) = period_of cal (fst dv2) \<and>
                fst dv1 \<noteq> period_label cal (period_of cal (fst dv1)) \<and>
                fst dv2 \<noteq> period_label cal (period_of cal (fst dv2))) \<or>
               (fst dv1 = period_label cal (period_of cal (fst dv1)) \<and>
                period_of cal (fst dv2) = Suc (period_of cal (fst dv1)) \<and>
                fst dv2 \<noteq> period_label cal (period_of cal (fst dv2)))"
  shows "snd dv1 = snd dv2"
proof -
  define src where "src = port_periodic cal w idx R"
  obtain d1 d2 where d: "d1 \<in> set idx" "dv1 = (d1, ffill_at src d1)"
      "d2 \<in> set idx" "dv2 = (d2, ffill_at src d2)"
    using dv by (auto simp: rebalanced_def Let_def src_def)
  have v: "valid_date d1" "valid_date d2"
    using valid d(1,3) by (auto simp: list_all_iff)
  have "date_le (period_label cal k) d1 = date_le (period_label cal k) d2" for k
    using same unfolding anch[OF v(1)] anch[OF v(2)] d(2,4) by (auto simp: less_Suc_eq)
  then have "ffill_at src d1 = ffill_at src d2"
    unfolding src_def port_periodic_def by (rule ffill_same)
  then show ?thesis by (simp add: d)
qed

lemma month_end_anchored:
  "valid_date d \<Longrightarrow>
     date_le (period_label month_end_calendar k) d \<longleftrightarrow>
       k < period_of month_end_calendar d \<or>
       (k = period_of month_end_calendar d \<and> d = period_label month_end_calendar k)"
  by (simp add: month_end_calendar_def month_end_le)

lemma quarter_end_anchored:
  "valid_date d \<Longrightarrow>
     date_le (period_label quarter_end_calendar k) d \<longleftrightarrow>
       k < period_of quarter_end_calendar d \<or>
       (k = period_of quarter_end_calendar d \<and> d = period_label quarter_end_calendar k)"
  by (simp add: quarter_end_calendar_def quarter_end_le)

lemma allocate_static_periodic:
  assumes "rebalance = Some ''M'' \<and> cal = month_end_calendar \<or>
           rebalance = Some ''Q'' \<and> cal = quarter_end_calendar"
  shows "allocate_static aliases (Some F) weights rebalance = Inr [] \<or>
         (\<exists>R. allocate_static aliases (Some F) weights rebalance =
                Inr (rebalanced cal (normalize_weights weights) (findex F) R))"
  using assms
  by (auto simp: allocate_static_def to_resample_rule_def freq_calendar_def Let_def)

text \<open>
  C6, as stated, fails: the bins carry period-end labels, and the forward fill
  gives each day the value at the last label not after it. 28 and 29 February
  2024 lie in one calendar month, yet the 28th still carries January's return and
  the 29th, the month's end label, carries February's.
\<close>

theorem periodic_rebalance_month_counterexample:
  "allocate_static no_aliases
     (Some \<lparr>findex = [(2024, 1, 31), (2024, 2, 28), (2024, 2, 29)],
            fcols = [(''A'', [Some (1 / 10), Some (1 / 5), Some (1 / 2)])]\<rparr>)
     [(''A'', 1)] (Some ''M'') =
     Inr [((2024, 1, 31), Fin (1 / 10)), ((2024, 2, 28), Fin (1 / 10)),
          ((2024, 2, 29), Fin (4 / 5))] \<and>
   month_period (2024, 2, 28) = month_period (2024, 2, 29) \<and>
   Fin (1 / 10) \<noteq> Fin (4 / 5)"
  by (simp add: allocate_static_def frame_empty_def normalize_weights_def weights_sum_def
        column_def to_resample_rule_def freq_calendar_def month_end_calendar_def
        rebalanced_def port_periodic_def bins_def month_period_def month_end_def
        days_in_month_def leap_year_def period_return_def in_period_def pd_prod_def
        obs_Cons_Some obs_Cons_None obs_Nil s_add_def weight_of_def ffill_at_def label_le_def
        date_le_def Let_def)

text \<open>
  C6, amended: for every return matrix with valid dates and every weight vector,
  \<open>allocate_static\<close> under monthly or quarterly rebalancing returns a series that
  is empty or has the matrix's daily index; its value is the same on any two days
  of one calendar period that both lie before the period's last calendar day, and
  the value on a period's last calendar day is the value on every day of the next
  period before that period's last calendar day. So the value changes only on the
  last calendar day of a period, or on the first index day after it.
\<close>

theorem periodic_rebalance_steps:
  assumes "list_all valid_date (findex F)"
    and "rebalance = Some ''M'' \<and> cal = month_end_calendar \<or>
         rebalance = Some ''Q'' \<and> cal = quarter_end_calendar"
  shows "\<exists>out. allocate_static aliases (Some F) weights rebalance = Inr out \<and>
           (out = [] \<or> map fst out = findex F) \<and>
           (\<forall>dv1 \<in> set out. \<forall>dv2 \<in> set out.
              period_of cal (fst dv1) = period_of cal (fst dv2) \<and>
              fst dv1 \<noteq> period_label cal (period_of cal (fst dv1)) \<and>
              fst dv2 \<noteq> period_label cal (period_of cal (fst dv2)) \<longrightarrow> snd dv1 = snd dv2) \<and>
           (\<forall>dv1 \<in> set out. \<forall>dv2 \<in> set out.
              fst dv1 = period_label cal (period_of cal (fst dv1)) \<and>
              period_of cal (fst dv2) = Suc (period_of cal (fst dv1)) \<and>
              fst dv2 \<noteq> period_label cal (period_of cal (fst dv2)) \<longrightarrow> snd dv1 = snd dv2)"
proof -
  have anch: "date_le (period_label cal k) d \<longleftrightarrow>
                k < period_of cal d \<or> (k = period_of cal d \<and> d = period_label cal k)"
    if "valid_date d" for k d
    using assms(2) that month_end_anchored quarter_end_anchored by blast
  from allocate_static_periodic[OF assms(2)]
  consider "allocate_static aliases (Some F) weights rebalance = Inr []"
    | R where "allocate_static aliases (Some F) weights rebalance =
                 Inr (rebalanced cal (normalize_weights weights) (findex F) R)"
    by blast
  then show ?thesis
  proof cases
    case 1
    then show ?thesis by simp
  next
    case 2
    let ?out = "rebalanced cal (normalize_weights weights) (findex F) R"
    have a: "snd dv1 = snd dv2"
      if "dv1 \<in> set ?out" "dv2 \<in> set ?out"
         "period_of cal (fst dv1) = period_of cal (fst dv2) \<and>
          fst dv1 \<noteq> period_label cal (period_of cal (fst dv1)) \<and>
          fst dv2 \<noteq> period_label cal (period_of cal (fst dv2))" for dv1 dv2
      using rebalanced_steps[OF anch assms(1) that(1,2)] that(3) by blast
    have b: "snd dv1 = snd dv2"
      if "dv1 \<in> set ?out" "dv2 \<in> set ?out"
         "fst dv1 = period_label cal (period_of cal (fst dv1)) \<and>
          period_of cal (fst dv2) = Suc (period_of cal (fst dv1)) \<and>
          fst dv2 \<noteq> period_label cal (period_of cal (fst dv2))" for dv1 dv2
      using rebalanced_steps[OF anch assms(1) that(1,2)] that(3) by blast
    show ?thesis
      using 2 a b rebalanced_index[of cal "normalize_weights weights" "findex F" R]
      by (intro exI[of _ ?out]) blast
  qed
qed

theorem periodic_rebalance_steps_witness:
  "list_all valid_date [(2024, 2, 27), (2024, 2, 28), (2024, 2, 29), (2024, 3, 1)] \<and>
   (\<exists>out. allocate_static no_aliases
            (Some \<lparr>findex = [(2024, 2, 27), (2024, 2, 28), (2024, 2, 29), (2024, 3, 1)],
                   fcols = [(''A'', [Some (1 / 10), Some (1 / 5), Some (1 / 2), Some (3 / 10)])]\<rparr>)
            [(''A'', 1)] (Some ''M'') = Inr out \<and>
          (out = [] \<or> map fst out = [(2024, 2, 27), (2024, 2, 28), (2024, 2, 29), (2024, 3, 1)]) \<and>
          (\<forall>dv1 \<in> set out. \<forall>dv2 \<in> set out.
             period_of month_end_calendar (fst dv1) = period_of month_end_calendar (fst dv2) \<and>
             fst dv1 \<noteq> period_label month_end_calendar (period_of month_end_calendar (fst dv1)) \<and>
             fst dv2 \<noteq> period_label month_end_calendar (period_of month_end_calendar (fst dv2))
             \<longrightarrow> snd dv1 = snd dv2) \<and>
          (\<forall>dv1 \<in> set out. \<forall>dv2 \<in> set out.
             fst dv1 = period_label month_end_calendar (period_of month_end_calendar (fst dv1)) \<and>
             period_of month_end_calendar (fst dv2) =
               Suc (period_of month_end_calendar (fst dv1)) \<and>
             fst dv2 \<noteq> period_label month_end_calendar (period_of month_end_calendar (fst dv2))
             \<longrightarrow> snd dv1 = snd dv2))"
proof -
  let ?F = "\<lparr>findex = [(2024, 2, 27), (2024, 2, 28), (2024, 2, 29), (2024, 3, 1)],
             fcols = [(''A'', [Some (1 / 10), Some (1 / 5), Some (1 / 2), Some (3 / 10)])]\<rparr>"
  have v: "list_all valid_date (findex ?F)"
    by (simp add: valid_date_def days_in_month_def leap_year_def)
  have r: "Some ''M'' = Some ''M'' \<and> month_end_calendar = month_end_calendar \<or>
           Some ''M'' = Some ''Q'' \<and> month_end_calendar = quarter_end_calendar"
    by simp
  show ?thesis
    using v periodic_rebalance_steps[OF v r, of no_aliases "[(''A'', 1)]"] by simp
qed


section \<open>Outcomes of the factor regression\<close>

lemma joined_collinear:
  "joined [((2024, 3, 4), Some 1), ((2024, 3, 5), Some 2), ((2024, 3, 6), Some 3)]
          \<lparr>findex = [(2024, 3, 4), (2024, 3, 5), (2024, 3, 6)],
           fcols = [(''F'', [Some 1, Some 1, Some 1])]\<rparr> =
     [(1, [1]), (2, [1]), (3, [1])]"
  by (simp add: joined_def List.map_filter_simps joined_row_def factor_cells_def cell_def
        upt_rec[of 0] upt_rec[of 1] upt_rec[of 2] upt_rec[of 3])

lemma joined_sloped:
  "joined [((2024, 3, 4), Some 1), ((2024, 3, 5), Some 2), ((2024, 3, 6), Some 4)]
          \<lparr>findex = [(2024, 3, 4), (2024, 3, 5), (2024, 3, 6)],
           fcols = [(''F'', [Some 0, Some 1, Some 2])]\<rparr> =
     [(1, [0]), (2, [1]), (4, [2])]"
  by (simp add: joined_def List.map_filter_simps joined_row_def factor_cells_def cell_def
        upt_rec[of 0] upt_rec[of 1] upt_rec[of 2] upt_rec[of 3])

lemma det_gram_collinear: "det (gram (design [(1, [1]), (2, [1]), (3, [1])])) = 0"
  by (simp add: gram_def design_def mat_mul_def drop_col_def
        upt_rec[of 0] upt_rec[of 1] upt_rec[of 2])

lemma det_gram_sloped: "det (gram (design [(1, [0]), (2, [1]), (4, [2])])) = 6"
  by (simp add: gram_def design_def mat_mul_def drop_col_def
        upt_rec[of 0] upt_rec[of 1] upt_rec[of 2])

lemma length_design: "length (design df) = length df"
  by (simp add: design_def)

lemma np_inv_error: "np_inv A = Inl e \<Longrightarrow> e = LinAlgError"
  by (auto simp: np_inv_def split: if_splits)

lemma position_of_date:
  assumes "distinct idx"
  shows "map_of (zip idx [0..<length idx]) d = Some i \<longleftrightarrow> i < length idx \<and> idx ! i = d"
proof
  assume "map_of (zip idx [0..<length idx]) d = Some i"
  then have "(d, i) \<in> set (zip idx [0..<length idx])" by (rule map_of_SomeD)
  then show "i < length idx \<and> idx ! i = d"
    by (auto simp: in_set_zip)
next
  assume h: "i < length idx \<and> idx ! i = d"
  then have "map_of (zip idx [0..<length idx]) (idx ! i) = Some ([0..<length idx] ! i)"
    using assms by (intro map_of_zip_nth) simp_all
  then show "map_of (zip idx [0..<length idx]) d = Some i"
    using h by simp
qed

lemma factor_cells_complete:
  assumes "distinct (findex F)" "fcols F \<noteq> []"
  shows "None \<notin> set (factor_cells F d) \<longleftrightarrow>
           (\<exists>i < length (findex F). findex F ! i = d \<and>
              (\<forall>cs \<in> set (fcols F). cell (snd cs) i \<noteq> None))"
proof (cases "map_of (zip (findex F) [0..<length (findex F)]) d")
  case None
  have no: "\<not> (\<exists>i < length (findex F). findex F ! i = d)"
  proof
    assume "\<exists>i < length (findex F). findex F ! i = d"
    then obtain i where "i < length (findex F) \<and> findex F ! i = d" by blast
    then have "map_of (zip (findex F) [0..<length (findex F)]) d = Some i"
      using position_of_date[OF assms(1)] by blast
    then show False using None by simp
  qed
  obtain c cs where "fcols F = c # cs"
    using assms(2) by (cases "fcols F") simp_all
  then have "factor_cells F d = None # map (\<lambda>cs. None) cs"
    by (simp add: factor_cells_def None)
  then have "None \<in> set (factor_cells F d)" by simp
  then show ?thesis using no by blast
next
  case (Some j)
  then have "j < length (findex F) \<and> findex F ! j = d"
    using position_of_date[OF assms(1)] by blast
  then have j: "j < length (findex F)" "findex F ! j = d" by simp_all
  have uniq: "i = j" if "i < length (findex F)" "findex F ! i = d" for i
    using that j assms(1) by (metis nth_eq_iff_index_eq)
  have fc: "factor_cells F d = map (\<lambda>cs. cell (snd cs) j) (fcols F)"
    by (simp add: factor_cells_def Some)
  have "None \<notin> set (factor_cells F d) \<longleftrightarrow> (\<forall>cs \<in> set (fcols F). cell (snd cs) j \<noteq> None)"
    unfolding fc set_map image_iff by metis
  then show ?thesis using j uniq by blast
qed

lemma joined_row_kept:
  assumes "distinct (findex F)" "fcols F \<noteq> []"
  shows "joined_row F dy \<noteq> None \<longleftrightarrow>
           snd dy \<noteq> None \<and>
           (\<exists>i < length (findex F). findex F ! i = fst dy \<and>
              (\<forall>cs \<in> set (fcols F). cell (snd cs) i \<noteq> None))"
  using factor_cells_complete[OF assms, of "fst dy"]
  by (cases "snd dy") (auto simp: joined_row_def Let_def)

lemma overlap_dates_joined:
  assumes "distinct (findex F)" "fcols F \<noteq> []"
  shows "overlap_dates port_rets F =
           fst ` set (filter (\<lambda>dy. joined_row F dy \<noteq> None) port_rets)"
proof (rule set_eqI)
  fix d
  let ?Q = "\<lambda>d. \<exists>i < length (findex F). findex F ! i = d \<and>
              (\<forall>cs \<in> set (fcols F). cell (snd cs) i \<noteq> None)"
  have kept: "joined_row F dy \<noteq> None \<longleftrightarrow> snd dy \<noteq> None \<and> ?Q (fst dy)" for dy
    using assms by (rule joined_row_kept)
  show "d \<in> overlap_dates port_rets F \<longleftrightarrow>
        d \<in> fst ` set (filter (\<lambda>dy. joined_row F dy \<noteq> None) port_rets)"
  proof
    assume "d \<in> overlap_dates port_rets F"
    then obtain y where y: "(d, Some y) \<in> set port_rets" and q: "?Q d"
      unfolding overlap_dates_def by blast
    have "joined_row F (d, Some y) \<noteq> None"
      unfolding kept using q by simp
    then have "(d, Some y) \<in> set (filter (\<lambda>dy. joined_row F dy \<noteq> None) port_rets)"
      using y by simp
    then show "d \<in> fst ` set (filter (\<lambda>dy. joined_row F dy \<noteq> None) port_rets)"
      by (rule image_eqI[rotated]) simp
  next
    assume "d \<in> fst ` set (filter (\<lambda>dy. joined_row F dy \<noteq> None) port_rets)"
    then obtain dy where dy: "dy \<in> set port_rets" "joined_row F dy \<noteq> None" "fst dy = d"
      by auto
    then have k: "snd dy \<noteq> None" "?Q d"
      using kept[of dy] by simp_all
    then obtain y where "snd dy = Some y" by auto
    then have "(d, Some y) \<in> set port_rets"
      using dy(1,3) by (cases dy) simp
    then show "d \<in> overlap_dates port_rets F"
      unfolding overlap_dates_def using k(2) by blast
  qed
qed

lemma length_map_filter: "length (List.map_filter f xs) = length (filter (\<lambda>x. f x \<noteq> None) xs)"
  by (simp add: List.map_filter_def)

lemma card_overlap_dates:
  assumes "distinct (map fst port_rets)" "distinct (findex F)" "fcols F \<noteq> []"
  shows "card (overlap_dates port_rets F) = length (joined port_rets F)"
proof -
  let ?kept = "filter (\<lambda>dy. joined_row F dy \<noteq> None) port_rets"
  have "distinct (map fst ?kept)"
    using assms(1) by (rule distinct_map_filter)
  then have "card (set (map fst ?kept)) = length (map fst ?kept)"
    by (rule distinct_card)
  then show ?thesis
    by (simp add: overlap_dates_joined[OF assms(2,3)] joined_def length_map_filter)
qed

lemma overlap_dates_finite: "finite (overlap_dates port_rets F)"
proof -
  have "overlap_dates port_rets F \<subseteq> fst ` set port_rets"
    by (force simp: overlap_dates_def)
  then show ?thesis by (rule finite_subset) simp
qed

lemma factor_regression_no_rows:
  assumes "joined port_rets F = []"
  shows "factor_regression solve invert port_rets F =
           Inl (ValueError ''No overlapping data between portfolio and factors.'')"
  using assms by (simp add: factor_regression_def)

lemma factor_regression_few_rows:
  assumes "joined port_rets F \<noteq> []" "length (joined port_rets F) \<le> 1 + length (fcols F)"
  shows "factor_regression solve invert port_rets F =
           Inl (ValueError ''Not enough observations for regression.'')"
  using assms by (simp add: factor_regression_def Let_def length_design)

lemma factor_regression_inversion_fails:
  assumes "1 + length (fcols F) < length (joined port_rets F)"
    and "invert (gram (design (joined port_rets F))) = Inl e"
  shows "factor_regression solve invert port_rets F = Inl e"
proof -
  have "joined port_rets F \<noteq> []" using assms(1) by auto
  then show ?thesis
    using assms by (simp add: factor_regression_def Let_def length_design)
qed

lemma factor_regression_record:
  assumes "1 + length (fcols F) < length (joined port_rets F)"
    and "invert (gram (design (joined port_rets F))) = Inr G"
  shows "\<exists>res. factor_regression solve invert port_rets F = Inr res \<and>
           df_resid res = int (length (joined port_rets F)) - (1 + int (length (fcols F)))"
proof -
  have "joined port_rets F \<noteq> []" using assms(1) by auto
  then show ?thesis
    using assms by (simp add: factor_regression_def Let_def length_design)
qed

lemma np_inv_result: "det A \<noteq> 0 \<Longrightarrow> \<exists>G. np_inv A = Inr G"
  by (simp add: np_inv_def)

text \<open>
  C7, as stated, fails: with the factor constant at 1.0 on three overlapping dates
  the overlap is not empty and the three rows exceed the two regressors, so
  neither named failure applies; yet \<open>X\<^sup>T X\<close> is the matrix of threes, the
  elimination meets a pivot that is exactly 0 (also in binary64, every value
  being a small integer) and \<^verbatim>\<open>np.linalg.inv\<close> raises LinAlgError: no result
  record is returned.
\<close>

theorem factor_regression_collinear_counterexample:
  "factor_regression lstsq np_inv
          [((2024, 3, 4), Some 1), ((2024, 3, 5), Some 2), ((2024, 3, 6), Some 3)]
          \<lparr>findex = [(2024, 3, 4), (2024, 3, 5), (2024, 3, 6)],
           fcols = [(''F'', [Some 1, Some 1, Some 1])]\<rparr> = Inl LinAlgError \<and>
   card (overlap_dates
          [((2024, 3, 4), Some 1), ((2024, 3, 5), Some 2), ((2024, 3, 6), Some 3)]
          \<lparr>findex = [(2024, 3, 4), (2024, 3, 5), (2024, 3, 6)],
           fcols = [(''F'', [Some 1, Some 1, Some 1])]\<rparr>) = 3 \<and>
   1 + length (fcols \<lparr>findex = [(2024, 3, 4), (2024, 3, 5), (2024, 3, 6)],
           fcols = [(''F'', [Some 1, Some 1, Some 1])]\<rparr>) = 2"
proof -
  let ?y = "[((2024, 3, 4), Some 1), ((2024, 3, 5), Some 2), ((2024, 3, 6), Some 3)]
              :: (date \<times> real option) list"
  let ?F = "\<lparr>findex = [(2024, 3, 4), (2024, 3, 5), (2024, 3, 6)],
             fcols = [(''F'', [Some 1, Some 1, Some 1])]\<rparr>"
  have "factor_regression lstsq np_inv ?y ?F = Inl LinAlgError"
    by (simp add: factor_regression_def joined_collinear det_gram_collinear np_inv_def Let_def
          length_design)
  moreover have "card (overlap_dates ?y ?F) = 3"
    using card_overlap_dates[of ?y ?F] by (simp add: joined_collinear)
  ultimately show ?thesis by simp
qed

text \<open>
  C7, amended: for every portfolio return series and factor matrix (dates unique,
  at least one factor, none named \<^verbatim>\<open>y\<close>), whatever least-squares solver and
  matrix inversion are used (the inversion failing with LinAlgError only),
  \<open>factor_regression\<close> fails with the no-overlap ValueError if and only if no date
  has a portfolio return and a complete factor row; it fails with the
  not-enough-observations ValueError if and only if the positive number of such
  dates does not exceed the number of regressors (factor count plus intercept);
  with more dates than regressors it fails with LinAlgError if the inversion of
  \<open>X\<^sup>T X\<close> fails, and it returns a result record exactly when that inversion
  succeeds, the record's residual degrees of freedom being the number of
  overlapping dates minus the number of regressors.
\<close>

theorem factor_regression_outcomes:
  assumes "distinct (map fst port_rets)" "distinct (findex F)" "wf_frame F"
    and "fcols F \<noteq> []" "''y'' \<notin> set (map fst (fcols F))"
    and "\<forall>A e. invert A = Inl e \<longrightarrow> e = LinAlgError"
  shows
    "(factor_regression solve invert port_rets F =
        Inl (ValueError ''No overlapping data between portfolio and factors.'')
      \<longleftrightarrow> overlap_dates port_rets F = {}) \<and>
     (factor_regression solve invert port_rets F =
        Inl (ValueError ''Not enough observations for regression.'')
      \<longleftrightarrow> overlap_dates port_rets F \<noteq> {} \<and>
          card (overlap_dates port_rets F) \<le> 1 + length (fcols F)) \<and>
     (factor_regression solve invert port_rets F = Inl LinAlgError
      \<longleftrightarrow> 1 + length (fcols F) < card (overlap_dates port_rets F) \<and>
          (\<exists>e. invert (gram (design (joined port_rets F))) = Inl e)) \<and>
     ((\<exists>res. factor_regression solve invert port_rets F = Inr res)
      \<longleftrightarrow> 1 + length (fcols F) < card (overlap_dates port_rets F) \<and>
          (\<exists>G. invert (gram (design (joined port_rets F))) = Inr G)) \<and>
     (\<forall>res. factor_regression solve invert port_rets F = Inr res \<longrightarrow>
        df_resid res = int (card (overlap_dates port_rets F)) - (1 + int (length (fcols F))))"
proof -
  define r where "r = factor_regression solve invert port_rets F"
  define df where "df = joined port_rets F"
  define k where "k = 1 + length (fcols F)"
  define inv where "inv = invert (gram (design df))"
  have n: "card (overlap_dates port_rets F) = length df"
    unfolding df_def using assms(1,2,4) by (rule card_overlap_dates)
  have empty: "overlap_dates port_rets F = {} \<longleftrightarrow> df = []"
    using n overlap_dates_finite[of port_rets F] by (auto simp: card_eq_0_iff)
  have msg: "ValueError ''No overlapping data between portfolio and factors.'' \<noteq>
             ValueError ''Not enough observations for regression.''"
    by simp
  consider "df = []" | "df \<noteq> []" "length df \<le> k"
    | e where "k < length df" "inv = Inl e"
    | G where "k < length df" "inv = Inr G"
    by (cases inv) fastforce+
  then have
    "(r = Inl (ValueError ''No overlapping data between portfolio and factors.'')
        \<longleftrightarrow> df = []) \<and>
     (r = Inl (ValueError ''Not enough observations for regression.'')
        \<longleftrightarrow> df \<noteq> [] \<and> length df \<le> k) \<and>
     (r = Inl LinAlgError \<longleftrightarrow> k < length df \<and> (\<exists>e. inv = Inl e)) \<and>
     ((\<exists>res. r = Inr res) \<longleftrightarrow> k < length df \<and> (\<exists>G. inv = Inr G)) \<and>
     (\<forall>res. r = Inr res \<longrightarrow> df_resid res = int (length df) - (1 + int (length (fcols F))))"
  proof cases
    case 1
    then have "r = Inl (ValueError ''No overlapping data between portfolio and factors.'')"
      unfolding r_def df_def by (rule factor_regression_no_rows)
    then show ?thesis using 1 by simp
  next
    case 2
    then have "r = Inl (ValueError ''Not enough observations for regression.'')"
      unfolding r_def df_def k_def by (rule factor_regression_few_rows)
    then show ?thesis using 2 by simp
  next
    case 3
    then have "r = Inl e"
      unfolding r_def df_def k_def inv_def by (rule factor_regression_inversion_fails)
    moreover have "e = LinAlgError"
      using 3(2) assms(6) unfolding inv_def by blast
    ultimately show ?thesis using 3 by auto
  next
    case 4
    then obtain res where "r = Inr res"
        "df_resid res = int (length df) - (1 + int (length (fcols F)))"
      using factor_regression_record[of F port_rets invert G solve]
      unfolding r_def df_def k_def inv_def by blast
    then show ?thesis using 4 by auto
  qed
  then show ?thesis
    unfolding r_def df_def k_def inv_def n[unfolded df_def] empty[unfolded df_def] .
qed

theorem factor_regression_outcomes_witness:
  "distinct (map fst ([((2024, 3, 4), Some 1), ((2024, 3, 5), Some 2), ((2024, 3, 6), Some 4)]
                       :: (date \<times> real option) list)) \<and>
   wf_frame \<lparr>findex = [(2024, 3, 4), (2024, 3, 5), (2024, 3, 6)],
             fcols = [(''F'', [Some 0, Some 1, Some 2])]\<rparr> \<and>
   (\<exists>res. factor_regression lstsq np_inv
            [((2024, 3, 4), Some 1), ((2024, 3, 5), Some 2), ((2024, 3, 6), Some 4)]
            \<lparr>findex = [(2024, 3, 4), (2024, 3, 5), (2024, 3, 6)],
             fcols = [(''F'', [Some 0, Some 1, Some 2])]\<rparr> = Inr res \<and>
          df_resid res = 1)"
proof -
  let ?y = "[((2024, 3, 4), Some 1), ((2024, 3, 5), Some 2), ((2024, 3, 6), Some 4)]
              :: (date \<times> real option) list"
  let ?F = "\<lparr>findex = [(2024, 3, 4), (2024, 3, 5), (2024, 3, 6)],
             fcols = [(''F'', [Some 0, Some 1, Some 2])]\<rparr>"
  have a: "distinct (map fst ?y)" by simp
  have b: "distinct (findex ?F)" by simp
  have c: "wf_frame ?F"
    by (simp add: wf_frame_def valid_date_def days_in_month_def)
  have d: "fcols ?F \<noteq> []" by simp
  have e: "''y'' \<notin> set (map fst (fcols ?F))" by simp
  have n: "card (overlap_dates ?y ?F) = 3"
    using card_overlap_dates[OF a b d] by (simp add: joined_sloped)
  have g: "\<exists>G. np_inv (gram (design (joined ?y ?F))) = Inr G"
    by (rule np_inv_result) (simp add: joined_sloped det_gram_sloped)
  have "1 + length (fcols ?F) < card (overlap_dates ?y ?F)"
    by (simp add: n)
  moreover have inv_err: "\<forall>A e. np_inv A = Inl e \<longrightarrow> e = LinAlgError"
    using np_inv_error by blast
  note outcomes = factor_regression_outcomes[where invert = np_inv and solve = lstsq
      and port_rets = ?y and F = ?F, OF a b c d e inv_err]
  ultimately obtain res where res: "factor_regression lstsq np_inv ?y ?F = Inr res"
    using g outcomes by blast
  then have "df_resid res = 1"
    using n outcomes by simp
  then show ?thesis
    using a c res by blast
qed

end
